theory Spec2Isabelle
  imports Complex_Main "HOL-Library.Sublist"
begin

section \<open>Data model (src/types.ts)\<close>

text \<open>
  \<^verbatim>\<open>export interface ShortcutData { k: string; e: string; s: string; }\<close>
  with \<open>k\<close> the keyword, \<open>e\<close> the expansion and \<open>s\<close> the section (language) tag.
  A JavaScript string is modelled as a \<open>string\<close> (a list of characters).
\<close>

record ShortcutData =
  k :: string
  e :: string
  s :: string

text \<open>
  \<^verbatim>\<open>export type SectionFilter = 'all' | 'universal' | 'spanish' | 'english';\<close>
  The four string literals of the union are the four constructors; \<open>SectionFilter_id\<close>
  gives the literal back.
\<close>

datatype SectionFilter = TabAll | TabUniversal | TabSpanish | TabEnglish

fun SectionFilter_id :: "SectionFilter \<Rightarrow> string" where
  "SectionFilter_id TabAll = ''all''"
| "SectionFilter_id TabUniversal = ''universal''"
| "SectionFilter_id TabSpanish = ''spanish''"
| "SectionFilter_id TabEnglish = ''english''"

section \<open>Query engine (src/App.tsx, filteredData)\<close>

text \<open>
  \<open>String.prototype.includes\<close>: does the argument occur in the receiver as a contiguous
  run of characters, at any position. The empty string occurs in every string.
\<close>

fun String_includes :: "string \<Rightarrow> string \<Rightarrow> bool" where
  "String_includes [] needle = (needle = [])"
| "String_includes (c # cs) needle = (prefix needle (c # cs) \<or> String_includes cs needle)"

text \<open>
  The memoised value \<open>filteredData\<close>. The catalog \<open>EXPANSIONS_DATA\<close> comes from
  \<^verbatim>\<open>./constants\<close> and is a parameter here, and so is \<open>toLowerCase\<close>, the host's
  \<open>String.prototype.toLowerCase\<close>: every theorem below holds for whatever mapping it is.
  A string is truthy exactly when it is not empty, which is the test \<^verbatim>\<open>if (searchTerm)\<close>.
\<close>

definition filteredData ::
  "(string \<Rightarrow> string) \<Rightarrow> ShortcutData list \<Rightarrow> SectionFilter \<Rightarrow> string \<Rightarrow> ShortcutData list" where
  "filteredData toLowerCase EXPANSIONS_DATA activeTab searchTerm =
     (let data = EXPANSIONS_DATA;
          data = (if activeTab = TabUniversal then filter (\<lambda>i. s i = ''all'') data
                  else if activeTab = TabSpanish then filter (\<lambda>i. s i = ''spanish'') data
                  else if activeTab = TabEnglish then filter (\<lambda>i. s i = ''english'') data
                  else data)
      in if searchTerm \<noteq> []
         then (let lower = toLowerCase searchTerm
               in filter (\<lambda>i. String_includes (toLowerCase (k i)) lower \<or>
                                String_includes (toLowerCase (e i)) lower) data)
         else data)"

text \<open>
  A lower-casing of the ASCII letters, used where a statement is evaluated on concrete
  strings: \<open>A\<close>..\<open>Z\<close> (codes 65..90) move to \<open>a\<close>..\<open>z\<close>, every other character stays.
\<close>

definition ascii_toLowerCase :: "string \<Rightarrow> string" where
  "ascii_toLowerCase str =
     map (\<lambda>c. if 65 \<le> (of_char c :: nat) \<and> (of_char c :: nat) \<le> 90
               then char_of ((of_char c :: nat) + 32) else c) str"

subsection \<open>The filter as the specification words it\<close>

text \<open>
  A case-insensitive substring match: after lower-casing both sides, the search text
  occurs somewhere in the field.
\<close>

definition ci_substring :: "(string \<Rightarrow> string) \<Rightarrow> string \<Rightarrow> string \<Rightarrow> bool" where
  "ci_substring toLowerCase needle field =
     (\<exists>before after. toLowerCase field = before @ toLowerCase needle @ after)"

text \<open>
  The text step of the specification: a non-empty search text must match the keyword or
  the expansion; an empty one lets every record pass.
\<close>

definition spec_text_step :: "(string \<Rightarrow> string) \<Rightarrow> string \<Rightarrow> ShortcutData \<Rightarrow> bool" where
  "spec_text_step toLowerCase searchText r =
     (searchText = [] \<or>
      ci_substring toLowerCase searchText (k r) \<or> ci_substring toLowerCase searchText (e r))"

text \<open>
  The category step as the specification words it: a filter other than \<open>all\<close> keeps the
  records whose category equals the filter.
\<close>

definition spec_category_step :: "SectionFilter \<Rightarrow> ShortcutData \<Rightarrow> bool" where
  "spec_category_step categoryFilter r =
     (categoryFilter = TabAll \<or> s r = SectionFilter_id categoryFilter)"

definition spec_filter ::
  "(string \<Rightarrow> string) \<Rightarrow> ShortcutData list \<Rightarrow> SectionFilter \<Rightarrow> string \<Rightarrow> ShortcutData list" where
  "spec_filter toLowerCase records categoryFilter searchText =
     filter (\<lambda>r. spec_category_step categoryFilter r \<and> spec_text_step toLowerCase searchText r)
       records"

text \<open>
  The category step the code performs: the tab \<open>universal\<close> selects the records tagged
  \<open>all\<close>; \<open>spanish\<close> and \<open>english\<close> select the records tagged with their own name.
\<close>

fun tab_selects :: "SectionFilter \<Rightarrow> ShortcutData \<Rightarrow> bool" where
  "tab_selects TabAll r = True"
| "tab_selects TabUniversal r = (s r = ''all'')"
| "tab_selects TabSpanish r = (s r = ''spanish'')"
| "tab_selects TabEnglish r = (s r = ''english'')"

section \<open>Paginator (src/App.tsx, totalPages and paginatedData)\<close>

text \<open>
  \<open>Array.prototype.slice(start, end)\<close> on integer arguments: a negative index counts
  from the end of the array, both indices are clamped to the array, and the elements
  from the first index up to, not including, the second are returned (none when the
  second is not beyond the first). It never raises.
\<close>

definition Array_slice :: "'a list \<Rightarrow> int \<Rightarrow> int \<Rightarrow> 'a list" where
  "Array_slice xs start end' =
     (let len = int (length xs);
          from = (if start < 0 then max (len + start) 0 else min start len);
          final = (if end' < 0 then max (len + end') 0 else min end' len)
      in take (nat (final - from)) (drop (nat from) xs))"

text \<open>
  \<^verbatim>\<open>const totalPages = Math.ceil(filteredData.length / itemsPerPage);\<close>
  The division is the division of real numbers and \<open>Math.ceil\<close> rounds up. Dividing by
  zero gives \<open>Infinity\<close> or \<open>NaN\<close> in JavaScript, which is no page count: the model
  returns \<open>None\<close> there.
\<close>

definition totalPages :: "'a list \<Rightarrow> int \<Rightarrow> int option" where
  "totalPages data itemsPerPage =
     (if itemsPerPage = 0 then None
      else Some \<lceil>real (length data) / real_of_int itemsPerPage\<rceil>)"

text \<open>
  \<^verbatim>\<open>const start = (currentPage - 1) * itemsPerPage;
  return filteredData.slice(start, start + itemsPerPage);\<close>
\<close>

definition paginatedData :: "'a list \<Rightarrow> int \<Rightarrow> int \<Rightarrow> 'a list" where
  "paginatedData data currentPage itemsPerPage =
     (let start = (currentPage - 1) * itemsPerPage
      in Array_slice data start (start + itemsPerPage))"

text \<open>
  The pagination controls are inside \<^verbatim>\<open>{filteredData.length > itemsPerPage && (...)}\<close>.
\<close>

definition paginationControls :: "'a list \<Rightarrow> int \<Rightarrow> bool" where
  "paginationControls data itemsPerPage = (int (length data) > itemsPerPage)"

text \<open>
  The half-open slice of the specification, \<open>xs[lo : hi]\<close>: the elements at the
  positions \<open>lo, lo + 1, ...\<close> below \<open>hi\<close>, stopping at the end of the sequence when
  \<open>hi\<close> lies beyond it.
\<close>

definition half_open_slice :: "'a list \<Rightarrow> nat \<Rightarrow> nat \<Rightarrow> 'a list" where
  "half_open_slice xs lo hi = map (\<lambda>i. xs ! i) [lo ..< min hi (length xs)]"

section \<open>Exporter (src/App.tsx, exportCSV and exportJSON)\<close>

text \<open>
  What a handler does to the outside world is a list of effects, in the order it
  performs them: a clipboard write, a toast (\<open>showToast\<close>, with its message and its
  type, \<open>success\<close> when none is given), a file offered for download (file name, MIME
  type, content) and the marking of a row as just copied. The timers that clear a
  toast after 3000 ms and the mark after 1500 ms are not part of the model.
\<close>

datatype ToastType = Success | Error | Info

datatype effect =
    ClipboardWrite string
  | ShowToast string ToastType
  | Download string string string
  | SetCopiedId string

text \<open>
  \<^verbatim>\<open>.replace(/"/g, '""')\<close> doubles every double quote and
  \<^verbatim>\<open>.replace(/\n/g, ' ')\<close> turns every line feed into a space.
\<close>

definition replace_quotes :: "string \<Rightarrow> string" where
  "replace_quotes str = concat (map (\<lambda>c. if c = CHR 0x22 then [CHR 0x22, CHR 0x22] else [c]) str)"

definition replace_newlines :: "string \<Rightarrow> string" where
  "replace_newlines str = map (\<lambda>c. if c = CHR 0x0A then CHR '' '' else c) str"

text \<open>
  The body of the \<open>forEach\<close> in \<open>exportCSV\<close>: the text appended for one record.
  \<^verbatim>\<open>const k = e.k.replace(/"/g, '""');
  const exp = e.e.replace(/"/g, '""').replace(/\n/g, ' ');
  csv += `"${k}","${exp}","${e.s}"\n`;\<close>
\<close>

definition csv_row :: "ShortcutData \<Rightarrow> string" where
  \<open>csv_row r =
     (let k' = replace_quotes (k r);
          exp = replace_newlines (replace_quotes (e r))
      in ''"'' @ k' @ ''","'' @ exp @ ''","'' @ s r @ ''"\<newline>'')\<close>

text \<open>The text \<open>csv\<close> that \<open>exportCSV\<close> builds: the header, then the loop over the records.\<close>

definition exportCSV_csv :: "ShortcutData list \<Rightarrow> string" where
  \<open>exportCSV_csv data =
     foldl (\<lambda>csv r. csv @ csv_row r) ''Shortcut,Expansion,Language\<newline>'' data\<close>

definition exportCSV :: "ShortcutData list \<Rightarrow> effect list" where
  "exportCSV data =
     [Download ''gboard_shortcuts.csv'' ''text/csv;charset=utf-8;'' (exportCSV_csv data),
      ShowToast ''CSV Exported Successfully'' Success]"

text \<open>
  \<open>Array.prototype.join\<close>: the elements with the separator between each two of
  them, and nothing after the last.
\<close>

fun Array_join :: "string \<Rightarrow> string list \<Rightarrow> string" where
  "Array_join sep [] = []"
| "Array_join sep [x] = x"
| "Array_join sep (x # y # ys) = x @ sep @ Array_join sep (y # ys)"

text \<open>
  \<open>JSON.stringify(value, null, 2)\<close> on an array of objects whose properties hold
  strings. \<open>QuoteJSONString\<close> wraps a string in double quotes and escapes the double
  quote, the backslash and the control characters below \<open>0x20\<close> (the short forms for
  backspace, tab, line feed, form feed and carriage return, \<open>\u00XX\<close> with lower-case
  hexadecimal digits for the others).
\<close>

definition hex_digit :: "nat \<Rightarrow> char" where
  "hex_digit n = (if n < 10 then char_of (48 + n) else char_of (87 + n))"

definition json_escape :: "char \<Rightarrow> string" where
  "json_escape c =
     (if c = CHR 0x08 then [CHR 0x5C, CHR ''b'']
      else if c = CHR 0x09 then [CHR 0x5C, CHR ''t'']
      else if c = CHR 0x0A then [CHR 0x5C, CHR ''n'']
      else if c = CHR 0x0C then [CHR 0x5C, CHR ''f'']
      else if c = CHR 0x0D then [CHR 0x5C, CHR ''r'']
      else if c = CHR 0x22 then [CHR 0x5C, CHR 0x22]
      else if c = CHR 0x5C then [CHR 0x5C, CHR 0x5C]
      else if (of_char c :: nat) < 32
        then [CHR 0x5C, CHR ''u'', CHR ''0'', CHR ''0'',
              hex_digit ((of_char c :: nat) div 16), hex_digit ((of_char c :: nat) mod 16)]
      else [c])"

definition QuoteJSONString :: "string \<Rightarrow> string" where
  "QuoteJSONString v = [CHR 0x22] @ concat (map json_escape v) @ [CHR 0x22]"

text \<open>
  An object is written as its properties, name and value, in the order in which the
  object holds them. With the gap of two spaces a non-empty object or array puts each
  member on a line of its own, indented one gap deeper than its parent, and separates
  a property's name from its value by a colon and a space.
\<close>

definition SerializeJSONObject :: "string \<Rightarrow> (string \<times> string) list \<Rightarrow> string" where
  \<open>SerializeJSONObject indent props =
     (if props = [] then ''{}''
      else
        (let stepback = indent;
             indent = indent @ ''  '';
             partial = map (\<lambda>(p, v). QuoteJSONString p @ '': '' @ QuoteJSONString v) props
         in ''{'' @ ''\<newline>'' @ indent @ Array_join ('','' @ ''\<newline>'' @ indent) partial
              @ ''\<newline>'' @ stepback @ ''}''))\<close>

definition SerializeJSONArray :: "(string \<times> string) list list \<Rightarrow> string" where
  \<open>SerializeJSONArray elems =
     (if elems = [] then ''[]''
      else
        (let indent = ''  '';
             partial = map (SerializeJSONObject indent) elems
         in ''['' @ ''\<newline>'' @ indent @ Array_join ('','' @ ''\<newline>'' @ indent) partial
              @ ''\<newline>'' @ '']''))\<close>

text \<open>
  The own properties of a \<open>ShortcutData\<close> object, by the names and in the order of the
  interface in src/types.ts.
\<close>

definition own_properties :: "ShortcutData \<Rightarrow> (string \<times> string) list" where
  "own_properties r = [(''k'', k r), (''e'', e r), (''s'', s r)]"

definition JSON_stringify :: "ShortcutData list \<Rightarrow> string" where
  "JSON_stringify data = SerializeJSONArray (map own_properties data)"

definition exportJSON :: "ShortcutData list \<Rightarrow> effect list" where
  "exportJSON data =
     [Download ''gboard_shortcuts.json'' ''application/json'' (JSON_stringify data),
      ShowToast ''JSON Exported Successfully'' Success]"

subsection \<open>The two formats as the specification words them\<close>

text \<open>
  Delimited text: every field is enclosed in double quotes with its double quotes
  doubled; the line feeds of the expansion become spaces before it is quoted; the
  fields are keyword, expansion, category; every line ends with one line feed.
\<close>

definition spec_quoted_field :: "string \<Rightarrow> string" where
  \<open>spec_quoted_field field = ''"'' @ replace_quotes field @ ''"''\<close>

definition spec_csv_line :: "ShortcutData \<Rightarrow> string" where
  \<open>spec_csv_line r =
     spec_quoted_field (k r) @ '','' @ spec_quoted_field (replace_newlines (e r)) @ '',''
       @ spec_quoted_field (s r) @ ''\<newline>''\<close>

definition spec_toDelimitedText :: "ShortcutData list \<Rightarrow> string" where
  \<open>spec_toDelimitedText records =
     ''Shortcut,Expansion,Language\<newline>'' @ concat (map spec_csv_line records)\<close>

text \<open>
  Structured text: a sequence of objects, each with the fields \<open>keyword\<close>,
  \<open>expansion\<close> and \<open>category\<close>.
\<close>

definition spec_fields :: "ShortcutData \<Rightarrow> (string \<times> string) list" where
  "spec_fields r = [(''keyword'', k r), (''expansion'', e r), (''category'', s r)]"

definition spec_toStructuredText :: "ShortcutData list \<Rightarrow> string" where
  "spec_toStructuredText records = SerializeJSONArray (map spec_fields records)"

section \<open>Clipboard bridge (src/App.tsx, copyToClipboard and copyVisible)\<close>

text \<open>
  \<^verbatim>\<open>navigator.clipboard.writeText(text).then(...).catch(...)\<close>
  What the host does with the call is an input of the model. Where the host has a
  clipboard, \<open>writeText\<close> returns a promise, which is later fulfilled or rejected. Where
  it has none (\<open>navigator.clipboard\<close> is undefined), reading \<open>writeText\<close> throws a
  \<open>TypeError\<close> at once: no promise exists, nothing is registered with \<open>then\<close> or
  \<open>catch\<close>, and the exception leaves \<open>copyToClipboard\<close> and its caller, since
  neither catches it.
\<close>

datatype outcome = Fulfilled | Rejected | Unsupported

datatype error = TypeError

text \<open>
  The callbacks given to \<open>then\<close> and \<open>catch\<close> run only after the code that called
  \<open>copyToClipboard\<close> has run to its end, so \<open>copyToClipboard\<close> is two parts: the
  request, made at once (or the exception), and what is done once the promise has
  settled. An \<open>id\<close> that is missing or empty is falsy and marks no row.
\<close>

definition copyToClipboard_request :: "string \<Rightarrow> outcome \<Rightarrow> error + effect list" where
  "copyToClipboard_request text result =
     (if result = Unsupported then Inl TypeError else Inr [ClipboardWrite text])"

definition copyToClipboard_settled :: "string option \<Rightarrow> outcome \<Rightarrow> effect list" where
  "copyToClipboard_settled id' result =
     (case result of
        Fulfilled \<Rightarrow>
          ShowToast ''Copied to clipboard!'' Success #
          (case id' of
             Some i \<Rightarrow> (if i \<noteq> [] then [SetCopiedId i] else [])
           | None \<Rightarrow> [])
      | Rejected \<Rightarrow> [ShowToast ''Failed to copy'' Error]
      | Unsupported \<Rightarrow> [])"

definition copyToClipboard :: "string \<Rightarrow> string option \<Rightarrow> outcome \<Rightarrow> error + effect list" where
  "copyToClipboard text id' result =
     (case copyToClipboard_request text result of
        Inl err \<Rightarrow> Inl err
      | Inr requested \<Rightarrow> Inr (requested @ copyToClipboard_settled id' result))"

text \<open>The decimal digits of a number, as a template literal prints it.\<close>

fun Number_toString :: "nat \<Rightarrow> string" where
  "Number_toString n =
     (if n < 10 then [char_of (48 + n)]
      else Number_toString (n div 10) @ [char_of (48 + n mod 10)])"

declare Number_toString.simps [simp del]

text \<open>
  \<^verbatim>\<open>if (filteredData.length === 0) return showToast('Nothing to copy', 'info');
  const text = filteredData.map(i => i.e).join('\n');
  copyToClipboard(text);
  showToast(`Copied ${filteredData.length} items!`, 'success');\<close>
  The toast of the last line is shown when \<open>copyToClipboard\<close> returns, before the
  promise settles. When \<open>copyToClipboard\<close> throws, the last line is not reached: the
  handler ends with the exception, having performed no effect.
\<close>

definition copyVisible :: "ShortcutData list \<Rightarrow> outcome \<Rightarrow> error + effect list" where
  \<open>copyVisible data result =
     (if length data = 0 then Inr [ShowToast ''Nothing to copy'' Info]
      else
        (let text = Array_join ''\<newline>'' (map e data)
         in case copyToClipboard_request text result of
              Inl err \<Rightarrow> Inl err
            | Inr requested \<Rightarrow>
                Inr (requested
                     @ [ShowToast (''Copied '' @ Number_toString (length data) @ '' items!'') Success]
                     @ copyToClipboard_settled None result)))\<close>

text \<open>
  Bulk copy as the specification words it: an empty sequence raises one informational
  notification and writes nothing; otherwise the block is written, and a success
  notification reporting the count is raised when the write succeeds, an error
  notification when it fails (the write is refused, or the host has no clipboard).
  The wording of the notifications is the code's.
\<close>

definition spec_copyBulk :: "string list \<Rightarrow> outcome \<Rightarrow> effect list" where
  \<open>spec_copyBulk expansions result =
     (if expansions = [] then [ShowToast ''Nothing to copy'' Info]
      else if result = Fulfilled
        then [ClipboardWrite (Array_join ''\<newline>'' expansions),
              ShowToast (''Copied '' @ Number_toString (length expansions) @ '' items!'') Success]
      else if result = Rejected
        then [ClipboardWrite (Array_join ''\<newline>'' expansions),
              ShowToast ''Failed to copy'' Error]
      else [ShowToast ''Failed to copy'' Error])\<close>

text \<open>
  The block of the specification: the expansions, each but the last followed by one
  line feed.
\<close>

fun spec_newline_joined :: "string list \<Rightarrow> string" where
  "spec_newline_joined [] = []"
| "spec_newline_joined (x # xs) = x @ concat (map (\<lambda>y. CHR 0x0A # y) xs)"

section \<open>Query state (src/App.tsx, the state hooks and the reset effect)\<close>

text \<open>
  \<^verbatim>\<open>const [searchTerm, setSearchTerm] = useState('');
  const [activeTab, setActiveTab] = useState<SectionFilter>('all');
  const [currentPage, setCurrentPage] = useState(1);
  const [itemsPerPage] = useState(100);\<close>
  \<open>itemsPerPage\<close> has no setter: it is the constant 100.
\<close>

definition itemsPerPage :: int where
  "itemsPerPage = 100"

record AppState =
  searchTerm :: string
  activeTab :: SectionFilter
  currentPage :: int

definition initialState :: AppState where
  "initialState = \<lparr>searchTerm = [], activeTab = TabAll, currentPage = 1\<rparr>"

text \<open>
  The user's actions on the query state: typing in the search box (or clearing it),
  choosing a tab, and the two pagination buttons.
\<close>

datatype action = SetSearchTerm string | SetActiveTab SectionFilter | PrevPage | NextPage

text \<open>
  The state an action's handler sets. The pagination buttons exist only while the
  controls are rendered, and a disabled button does nothing:
  \<^verbatim>\<open>onClick={() => setCurrentPage(prev => Math.max(1, prev - 1))}
  disabled={currentPage === 1}\<close> and
  \<^verbatim>\<open>onClick={() => setCurrentPage(prev => Math.min(totalPages, prev + 1))}
  disabled={currentPage === totalPages}\<close>.
\<close>

fun handler :: "(string \<Rightarrow> string) \<Rightarrow> ShortcutData list \<Rightarrow> action \<Rightarrow> AppState \<Rightarrow> AppState" where
  "handler toLowerCase EXPANSIONS_DATA (SetSearchTerm v) st = st\<lparr>searchTerm := v\<rparr>"
| "handler toLowerCase EXPANSIONS_DATA (SetActiveTab t) st = st\<lparr>activeTab := t\<rparr>"
| "handler toLowerCase EXPANSIONS_DATA PrevPage st =
     (let data = filteredData toLowerCase EXPANSIONS_DATA (activeTab st) (searchTerm st)
      in if paginationControls data itemsPerPage \<and> currentPage st \<noteq> 1
         then st\<lparr>currentPage := max 1 (currentPage st - 1)\<rparr>
         else st)"
| "handler toLowerCase EXPANSIONS_DATA NextPage st =
     (let data = filteredData toLowerCase EXPANSIONS_DATA (activeTab st) (searchTerm st)
      in case totalPages data itemsPerPage of
           None \<Rightarrow> st
         | Some pages \<Rightarrow>
             if paginationControls data itemsPerPage \<and> currentPage st \<noteq> pages
             then st\<lparr>currentPage := min pages (currentPage st + 1)\<rparr>
             else st)"

text \<open>
  \<^verbatim>\<open>useEffect(() => { setCurrentPage(1); }, [activeTab, searchTerm]);\<close>
  The effect runs after a render whose \<open>activeTab\<close> or \<open>searchTerm\<close> differs from
  that of the render before (\<open>prev\<close>).
\<close>

definition resetPageEffect :: "AppState \<Rightarrow> AppState \<Rightarrow> AppState" where
  "resetPageEffect prev st =
     (if activeTab st \<noteq> activeTab prev \<or> searchTerm st \<noteq> searchTerm prev
      then st\<lparr>currentPage := 1\<rparr> else st)"

text \<open>
  One action from a settled state: the handler sets the state, the component renders
  with it, the effect runs. \<open>dispatch\<close> is the state once the effect has run;
  \<open>run\<close> performs a sequence of actions.
\<close>

definition dispatch :: "(string \<Rightarrow> string) \<Rightarrow> ShortcutData list \<Rightarrow> AppState \<Rightarrow> action \<Rightarrow> AppState" where
  "dispatch toLowerCase EXPANSIONS_DATA st a =
     resetPageEffect st (handler toLowerCase EXPANSIONS_DATA a st)"

definition run :: "(string \<Rightarrow> string) \<Rightarrow> ShortcutData list \<Rightarrow> action list \<Rightarrow> AppState" where
  "run toLowerCase EXPANSIONS_DATA actions =
     foldl (dispatch toLowerCase EXPANSIONS_DATA) initialState actions"

text \<open>The filtered result, the page count and the page of a state, as a render computes them.\<close>

definition filtered_of :: "(string \<Rightarrow> string) \<Rightarrow> ShortcutData list \<Rightarrow> AppState \<Rightarrow> ShortcutData list" where
  "filtered_of toLowerCase EXPANSIONS_DATA st =
     filteredData toLowerCase EXPANSIONS_DATA (activeTab st) (searchTerm st)"

definition page_of :: "(string \<Rightarrow> string) \<Rightarrow> ShortcutData list \<Rightarrow> AppState \<Rightarrow> ShortcutData list" where
  "page_of toLowerCase EXPANSIONS_DATA st =
     paginatedData (filtered_of toLowerCase EXPANSIONS_DATA st) (currentPage st) itemsPerPage"

text \<open>
  The pages the renders after an action show: the render with the state the handler
  set, and, when the effect changed the state, the render that follows it.
\<close>

definition renders_after ::
  "(string \<Rightarrow> string) \<Rightarrow> ShortcutData list \<Rightarrow> AppState \<Rightarrow> action \<Rightarrow> ShortcutData list list" where
  "renders_after toLowerCase EXPANSIONS_DATA st a =
     (let st1 = handler toLowerCase EXPANSIONS_DATA a st;
          st2 = resetPageEffect st st1
      in page_of toLowerCase EXPANSIONS_DATA st1 #
         (if st2 \<noteq> st1 then [page_of toLowerCase EXPANSIONS_DATA st2] else []))"

text \<open>Whether an action changes the category filter or the search text of a state.\<close>

fun changes_filter :: "action \<Rightarrow> AppState \<Rightarrow> bool" where
  "changes_filter (SetSearchTerm v) st = (v \<noteq> searchTerm st)"
| "changes_filter (SetActiveTab t) st = (t \<noteq> activeTab st)"
| "changes_filter PrevPage st = False"
| "changes_filter NextPage st = False"

text \<open>
  The invariant of the specification: the page number of a state lies within
  \<open>[1, totalPages]\<close> of the state's filtered result.
\<close>

definition spec_page_in_range ::
  "(string \<Rightarrow> string) \<Rightarrow> ShortcutData list \<Rightarrow> AppState \<Rightarrow> bool" where
  "spec_page_in_range toLowerCase EXPANSIONS_DATA st =
     (case totalPages (filtered_of toLowerCase EXPANSIONS_DATA st) itemsPerPage of
        None \<Rightarrow> False
      | Some pages \<Rightarrow> 1 \<le> currentPage st \<and> currentPage st \<le> pages)"

text \<open>
  The invariant the code keeps: the page number is 1, or it lies within
  \<open>[1, totalPages]\<close>.
\<close>

definition page_in_range ::
  "(string \<Rightarrow> string) \<Rightarrow> ShortcutData list \<Rightarrow> AppState \<Rightarrow> bool" where
  "page_in_range toLowerCase EXPANSIONS_DATA st =
     (currentPage st = 1 \<or> spec_page_in_range toLowerCase EXPANSIONS_DATA st)"

section \<open>Properties of the query engine\<close>

lemma includes_iff: "String_includes hay needle \<longleftrightarrow> (\<exists>before after. hay = before @ needle @ after)"
proof (induction hay)
  case Nil
  then show ?case by auto
next
  case (Cons c cs)
  show ?case
  proof
    assume "String_includes (c # cs) needle"
    then consider "prefix needle (c # cs)" | "String_includes cs needle" by auto
    then show "\<exists>before after. c # cs = before @ needle @ after"
    proof cases
      case 1
      then obtain after where "c # cs = needle @ after" by (auto simp: prefix_def)
      then have "c # cs = [] @ needle @ after" by simp
      then show ?thesis by blast
    next
      case 2
      with Cons.IH obtain before after where "cs = before @ needle @ after" by blast
      then have "c # cs = (c # before) @ needle @ after" by simp
      then show ?thesis by blast
    qed
  next
    assume "\<exists>before after. c # cs = before @ needle @ after"
    then obtain before after where eq: "c # cs = before @ needle @ after" by blast
    show "String_includes (c # cs) needle"
    proof (cases before)
      case Nil
      with eq have "prefix needle (c # cs)" by (simp add: prefix_def)
      then show ?thesis by simp
    next
      case (Cons b bs)
      with eq have "cs = bs @ needle @ after" by simp
      with Cons.IH have "String_includes cs needle" by blast
      then show ?thesis by simp
    qed
  qed
qed

lemma includes_ci_substring:
  "String_includes (toLowerCase field) (toLowerCase needle) = ci_substring toLowerCase needle field"
  by (simp add: includes_iff ci_substring_def)

lemma filteredData_filter:
  "filteredData toLowerCase records tab txt =
     filter (\<lambda>r. tab_selects tab r \<and> spec_text_step toLowerCase txt r) records"
  by (cases tab) (simp_all add: filteredData_def Let_def spec_text_step_def includes_ci_substring)

text \<open>
  C1, as amended. For every catalog, category filter and search text, the filter keeps
  exactly the records, in catalog order, that pass both steps. Category step: the
  filter \<open>all\<close> keeps every record, \<open>universal\<close> keeps the records whose category is
  \<open>all\<close>, and \<open>spanish\<close> and \<open>english\<close> keep the records whose category equals the
  filter. Text step: an empty search text keeps every record; a non-empty one (no
  trimming) keeps the records in which it occurs, ignoring case, in the keyword or in
  the expansion.
\<close>

theorem filteredData_retains:
  "filteredData toLowerCase records tab txt =
     filter (\<lambda>r. (tab = TabAll \<or> (tab = TabUniversal \<and> s r = ''all'') \<or>
                   ((tab = TabSpanish \<or> tab = TabEnglish) \<and> s r = SectionFilter_id tab)) \<and>
                  (txt = [] \<or> ci_substring toLowerCase txt (k r) \<or>
                   ci_substring toLowerCase txt (e r)))
       records"
  by (cases tab) (simp_all add: filteredData_filter spec_text_step_def)

text \<open>
  The search text \<open>HOLA\<close> under the tab \<open>universal\<close>: of two records tagged \<open>all\<close> the
  one whose expansion is \<open>hola amigo\<close> is kept, and the record tagged \<open>spanish\<close> is not.
\<close>

theorem filteredData_retains_witness:
  "filter (\<lambda>r. (TabUniversal = TabAll \<or> (TabUniversal = TabUniversal \<and> s r = ''all'') \<or>
                   ((TabUniversal = TabSpanish \<or> TabUniversal = TabEnglish) \<and> s r = SectionFilter_id TabUniversal)) \<and>
                  (''HOLA'' = [] \<or> ci_substring ascii_toLowerCase ''HOLA'' (k r) \<or>
                   ci_substring ascii_toLowerCase ''HOLA'' (e r)))
     [\<lparr>k = ''hl'', e = ''hola amigo'', s = ''all''\<rparr>,
      \<lparr>k = ''hola2'', e = ''buenos dias'', s = ''spanish''\<rparr>,
      \<lparr>k = ''gm'', e = ''good morning'', s = ''all''\<rparr>]
   = [\<lparr>k = ''hl'', e = ''hola amigo'', s = ''all''\<rparr>]"
proof -
  have "filteredData ascii_toLowerCase
          [\<lparr>k = ''hl'', e = ''hola amigo'', s = ''all''\<rparr>,
           \<lparr>k = ''hola2'', e = ''buenos dias'', s = ''spanish''\<rparr>,
           \<lparr>k = ''gm'', e = ''good morning'', s = ''all''\<rparr>] TabUniversal ''HOLA''
        = [\<lparr>k = ''hl'', e = ''hola amigo'', s = ''all''\<rparr>]"
    by code_simp
  then show ?thesis
    by (simp only: filteredData_retains)
qed

text \<open>
  C1 as the specification states it fails for the tab \<open>universal\<close>: the code keeps the
  record whose category is \<open>all\<close> and drops the one whose category is \<open>universal\<close>,
  where the stated category step would keep the second and drop the first.
\<close>

theorem filter_universal_counterexample:
  "filteredData ascii_toLowerCase
     [\<lparr>k = ''brb'', e = ''be right back'', s = ''all''\<rparr>,
      \<lparr>k = ''u1'', e = ''you are welcome'', s = ''universal''\<rparr>] TabUniversal []
     = [\<lparr>k = ''brb'', e = ''be right back'', s = ''all''\<rparr>]
   \<and> spec_filter ascii_toLowerCase
     [\<lparr>k = ''brb'', e = ''be right back'', s = ''all''\<rparr>,
      \<lparr>k = ''u1'', e = ''you are welcome'', s = ''universal''\<rparr>] TabUniversal []
     = [\<lparr>k = ''u1'', e = ''you are welcome'', s = ''universal''\<rparr>]
   \<and> filteredData ascii_toLowerCase
     [\<lparr>k = ''brb'', e = ''be right back'', s = ''all''\<rparr>,
      \<lparr>k = ''u1'', e = ''you are welcome'', s = ''universal''\<rparr>] TabUniversal []
     \<noteq> spec_filter ascii_toLowerCase
     [\<lparr>k = ''brb'', e = ''be right back'', s = ''all''\<rparr>,
      \<lparr>k = ''u1'', e = ''you are welcome'', s = ''universal''\<rparr>] TabUniversal []"
  by (simp add: filteredData_def spec_filter_def spec_category_step_def spec_text_step_def)

text \<open>
  C8. Filtering is idempotent: filtering the filtered catalog again, with the same
  category filter and the same search text, changes nothing.
\<close>

theorem filteredData_idempotent:
  "filteredData toLowerCase (filteredData toLowerCase records tab txt) tab txt =
     filteredData toLowerCase records tab txt"
  by (simp add: filteredData_filter)

theorem filteredData_idempotent_witness:
  "filteredData ascii_toLowerCase
     (filteredData ascii_toLowerCase
        [\<lparr>k = ''hl'', e = ''hola amigo'', s = ''spanish''\<rparr>,
         \<lparr>k = ''gm'', e = ''good morning'', s = ''english''\<rparr>] TabSpanish ''HOLA'')
     TabSpanish ''HOLA''
   = [\<lparr>k = ''hl'', e = ''hola amigo'', s = ''spanish''\<rparr>]"
proof -
  have "filteredData ascii_toLowerCase
          [\<lparr>k = ''hl'', e = ''hola amigo'', s = ''spanish''\<rparr>,
           \<lparr>k = ''gm'', e = ''good morning'', s = ''english''\<rparr>] TabSpanish ''HOLA''
        = [\<lparr>k = ''hl'', e = ''hola amigo'', s = ''spanish''\<rparr>]" (is "?once = _")
    by code_simp
  moreover have "filteredData ascii_toLowerCase ?once TabSpanish ''HOLA'' = ?once"
    by (rule filteredData_idempotent)
  ultimately show ?thesis by (simp only:)
qed

section \<open>Properties of the paginator\<close>

lemma half_open_slice_take_drop:
  "half_open_slice xs lo hi = take (hi - lo) (drop lo xs)"
proof (rule nth_equalityI)
  show "length (half_open_slice xs lo hi) = length (take (hi - lo) (drop lo xs))"
    by (auto simp: half_open_slice_def)
next
  fix i assume "i < length (half_open_slice xs lo hi)"
  then have i: "i < min hi (length xs) - lo" by (simp add: half_open_slice_def)
  then have lt: "lo + i < min hi (length xs)" by arith
  have "half_open_slice xs lo hi ! i = xs ! (lo + i)"
    using i lt by (simp add: half_open_slice_def del: upt_Suc)
  moreover have "take (hi - lo) (drop lo xs) ! i = xs ! (lo + i)"
  proof -
    from lt have "i < hi - lo" "lo \<le> length xs" by auto
    then show ?thesis by (simp add: nth_drop)
  qed
  ultimately show "half_open_slice xs lo hi ! i = take (hi - lo) (drop lo xs) ! i" by simp
qed

lemma Array_slice_nonneg:
  assumes "0 \<le> a" "0 \<le> b"
  shows "Array_slice xs a b = take (nat b - nat a) (drop (nat a) xs)"
proof (cases "a \<le> int (length xs)")
  case True
  with assms show ?thesis
    by (auto simp: Array_slice_def Let_def min_def nat_diff_distrib')
next
  case False
  with assms show ?thesis
    by (auto simp: Array_slice_def Let_def min_def)
qed

lemma paginatedData_take_drop:
  assumes "0 < perPage" "1 \<le> page"
  shows "paginatedData xs page perPage = take (nat perPage) (drop (nat ((page - 1) * perPage)) xs)"
proof -
  have a: "0 \<le> (page - 1) * perPage" using assms by simp
  then have b: "0 \<le> (page - 1) * perPage + perPage" using assms by simp
  have "nat ((page - 1) * perPage + perPage) - nat ((page - 1) * perPage) = nat perPage"
    using a assms by (simp add: nat_add_distrib)
  then show ?thesis
    by (simp add: paginatedData_def Let_def Array_slice_nonneg[OF a b])
qed

lemma totalPages_covers:
  assumes "0 < perPage" "totalPages xs perPage = Some pages"
  shows "0 \<le> pages" "int (length xs) \<le> pages * perPage"
proof -
  from assms have p: "pages = \<lceil>real (length xs) / real_of_int perPage\<rceil>"
    by (auto simp: totalPages_def)
  have "0 \<le> real (length xs) / real_of_int perPage" using assms by simp
  then show "0 \<le> pages" unfolding p by simp
  have "real (length xs) / real_of_int perPage \<le> real_of_int pages"
    unfolding p by (rule le_of_int_ceiling)
  then have "real (length xs) \<le> real_of_int pages * real_of_int perPage"
    using assms by (simp add: pos_divide_le_eq)
  then have "real_of_int (int (length xs)) \<le> real_of_int (pages * perPage)" by simp
  then show "int (length xs) \<le> pages * perPage" by (simp only: of_int_le_iff)
qed

lemma concat_pages_nat:
  "concat (map (\<lambda>i. take n (drop (i * n) xs)) [0..<m]) = take (m * n) xs"
proof (induction m)
  case 0
  then show ?case by simp
next
  case (Suc m)
  have "take (m * n) xs @ take n (drop (m * n) xs) = take (m * n + n) xs"
    by (simp add: take_add)
  with Suc show ?case by (simp add: add.commute)
qed

lemma upto_from_one: "[1..int m] = map (\<lambda>i. int i + 1) [0..<m]"
proof (induction m)
  case 0
  then show ?case by simp
next
  case (Suc m)
  have "[1..int (Suc m)] = [1..int m] @ [int m + 1]"
    using upto_rec2[of 1 "int (Suc m)"] by (simp add: add.commute)
  with Suc show ?case by simp
qed

lemma concat_pages:
  assumes "0 < perPage" "totalPages xs perPage = Some pages"
  shows "concat (map (\<lambda>p. paginatedData xs p perPage) [1..pages]) = xs"
proof -
  note cov = totalPages_covers[OF assms]
  define m where "m = nat pages"
  define n where "n = nat perPage"
  have pages: "pages = int m" using cov(1) by (simp add: m_def)
  have "map (\<lambda>p. paginatedData xs p perPage) [1..pages]
          = map (\<lambda>i. take n (drop (i * n) xs)) [0..<m]"
    unfolding pages upto_from_one
    using assms(1) by (simp add: paginatedData_take_drop n_def nat_mult_distrib)
  then have "concat (map (\<lambda>p. paginatedData xs p perPage) [1..pages]) = take (m * n) xs"
    by (simp only: concat_pages_nat)
  moreover have "length xs \<le> m * n"
    using cov assms(1) by (simp add: m_def n_def nat_mult_distrib[symmetric] nat_le_iff)
  ultimately show ?thesis by simp
qed

text \<open>
  C6. For every filtered sequence, every page size (a positive integer) and every page
  number (an integer from 1), the page count is the ceiling of the length over the
  page size, and the page is the half-open slice from \<open>(page - 1) * size\<close> to
  \<open>page * size\<close>, clipped at the end of the sequence. With 150 records and a page size
  of 100, page 1 has 100 records, page 2 has 50 and there are 2 pages.
\<close>

theorem paginate_slice:
  assumes "0 < perPage" and "1 \<le> page"
  shows "totalPages xs perPage = Some \<lceil>real (length xs) / real_of_int perPage\<rceil>
       \<and> paginatedData xs page perPage
           = half_open_slice xs (nat ((page - 1) * perPage)) (nat (page * perPage))
       \<and> (length xs = 150 \<and> perPage = 100 \<longrightarrow>
            length (paginatedData xs 1 perPage) = 100 \<and>
            length (paginatedData xs 2 perPage) = 50 \<and>
            totalPages xs perPage = Some 2)"
proof (intro conjI impI)
  show "totalPages xs perPage = Some \<lceil>real (length xs) / real_of_int perPage\<rceil>"
    using assms by (simp add: totalPages_def)
next
  have "0 \<le> (page - 1) * perPage" using assms by simp
  moreover have "page * perPage = (page - 1) * perPage + perPage" by (simp add: algebra_simps)
  ultimately have "nat (page * perPage) - nat ((page - 1) * perPage) = nat perPage"
    using assms by (simp add: nat_add_distrib)
  then show "paginatedData xs page perPage
           = half_open_slice xs (nat ((page - 1) * perPage)) (nat (page * perPage))"
    using assms by (simp add: paginatedData_take_drop half_open_slice_take_drop)
next
  assume "length xs = 150 \<and> perPage = 100"
  then show "length (paginatedData xs 1 perPage) = 100"
    by (simp add: paginatedData_take_drop)
next
  assume "length xs = 150 \<and> perPage = 100"
  then show "length (paginatedData xs 2 perPage) = 50"
    by (simp add: paginatedData_take_drop)
next
  assume "length xs = 150 \<and> perPage = 100"
  then show "totalPages xs perPage = Some 2"
    by (simp add: totalPages_def)
qed

theorem paginate_slice_witness:
  "(0::int) < 100 \<and> (1::int) \<le> 2
   \<and> totalPages (replicate 150 \<lparr>k = ''hl'', e = ''hola'', s = ''spanish''\<rparr>) 100 = Some 2
   \<and> length (paginatedData (replicate 150 \<lparr>k = ''hl'', e = ''hola'', s = ''spanish''\<rparr>) 1 100) = 100
   \<and> length (paginatedData (replicate 150 \<lparr>k = ''hl'', e = ''hola'', s = ''spanish''\<rparr>) 2 100) = 50
   \<and> paginatedData (replicate 150 \<lparr>k = ''hl'', e = ''hola'', s = ''spanish''\<rparr>) 2 100
       = half_open_slice (replicate 150 \<lparr>k = ''hl'', e = ''hola'', s = ''spanish''\<rparr>) 100 200"
  using paginate_slice[of 100 2 "replicate 150 \<lparr>k = ''hl'', e = ''hola'', s = ''spanish''\<rparr>"]
  by (simp add: half_open_slice_def)

text \<open>
  C7. For every filtered sequence and every page size (a positive integer), the pages
  1 to \<open>totalPages\<close>, one after the other, are the filtered sequence itself: no record
  is left out and none comes twice.
\<close>

theorem pagination_coverage:
  assumes "0 < perPage" and "totalPages xs perPage = Some pages"
  shows "concat (map (\<lambda>p. paginatedData xs p perPage) [1..pages]) = xs"
  using assms by (rule concat_pages)

theorem pagination_coverage_witness:
  "(0::int) < 2 \<and> totalPages ''abcde'' 2 = Some 3
   \<and> map (\<lambda>p. paginatedData ''abcde'' p 2) [1..3] = [''ab'', ''cd'', ''e'']
   \<and> concat (map (\<lambda>p. paginatedData ''abcde'' p 2) [1..3]) = ''abcde''"
proof -
  have tp: "totalPages ''abcde'' 2 = Some 3" by (simp add: totalPages_def)
  have pg: "map (\<lambda>p. paginatedData ''abcde'' p 2) [1..3] = [''ab'', ''cd'', ''e'']"
    by (simp add: upto.simps paginatedData_def Array_slice_def)
  have "(0::int) < 2" by simp
  from pagination_coverage[OF this tp] tp pg show ?thesis by simp
qed

text \<open>
  C10. An empty filtered result has 0 pages and an empty page, whatever the page
  number; the pagination controls are rendered exactly when the filtered result is
  longer than the page size, so never for an empty result.
\<close>

theorem empty_result_pagination:
  "totalPages ([] :: ShortcutData list) itemsPerPage = Some 0
   \<and> paginatedData ([] :: ShortcutData list) page itemsPerPage = []
   \<and> (paginationControls xs itemsPerPage \<longleftrightarrow> int (length xs) > itemsPerPage)
   \<and> \<not> paginationControls ([] :: ShortcutData list) itemsPerPage"
  by (simp add: totalPages_def paginatedData_def Array_slice_def paginationControls_def
      itemsPerPage_def Let_def)

section \<open>Properties of the exporter\<close>

lemma exportCSV_csv_rows:
  \<open>exportCSV_csv data = ''Shortcut,Expansion,Language\<newline>'' @ concat (map csv_row data)\<close>
proof -
  have "foldl (\<lambda>csv r. csv @ csv_row r) acc data = acc @ concat (map csv_row data)" for acc
    by (induction data arbitrary: acc) simp_all
  then show ?thesis by (simp add: exportCSV_csv_def)
qed

lemma replace_quotes_newlines_commute:
  "replace_newlines (replace_quotes str) = replace_quotes (replace_newlines str)"
  by (induction str) (simp_all add: replace_quotes_def replace_newlines_def)

lemma replace_quotes_id:
  "CHR 0x22 \<notin> set str \<Longrightarrow> replace_quotes str = str"
  by (induction str) (auto simp: replace_quotes_def)

lemma csv_row_spec:
  "CHR 0x22 \<notin> set (s r) \<Longrightarrow> csv_row r = spec_csv_line r"
  by (simp add: csv_row_def spec_csv_line_def spec_quoted_field_def Let_def
      replace_quotes_newlines_commute replace_quotes_id)

lemma exportCSV_csv_spec:
  assumes "\<forall>r \<in> set data. CHR 0x22 \<notin> set (s r)"
  shows "exportCSV_csv data = spec_toDelimitedText data"
proof -
  have "map csv_row data = map spec_csv_line data"
    using assms by (auto simp: csv_row_spec)
  then show ?thesis by (simp only: exportCSV_csv_rows spec_toDelimitedText_def)
qed

lemma replace_newlines_no_newline: "CHR 0x0A \<notin> set (replace_newlines str)"
  by (induction str) (simp_all add: replace_newlines_def)

lemma set_replace_quotes: "set (replace_quotes str) = set str"
  by (induction str) (auto simp: replace_quotes_def)

text \<open>
  One line per record: when neither the keyword nor the category holds a line feed,
  the only line feed of a row is its last character.
\<close>

lemma csv_row_one_line:
  assumes "CHR 0x0A \<notin> set (k r)" and "CHR 0x0A \<notin> set (s r)"
  shows "\<exists>body. csv_row r = body @ [CHR 0x0A] \<and> CHR 0x0A \<notin> set body"
proof -
  define body where
    \<open>body = ''"'' @ replace_quotes (k r) @ ''","'' @ replace_newlines (replace_quotes (e r))
               @ ''","'' @ s r @ ''"''\<close>
  have "csv_row r = body @ [CHR 0x0A]"
    by (simp add: csv_row_def body_def Let_def)
  moreover have "CHR 0x0A \<notin> set body"
    using assms by (simp add: body_def set_replace_quotes replace_newlines_no_newline)
  ultimately show ?thesis by blast
qed

text \<open>
  The record of the specification's round-trip example: the inner double quotes are
  doubled.
\<close>

lemma exportCSV_csv_round_trip_example:
  \<open>exportCSV_csv [\<lparr>k = ''A1'', e = ''Hello, "World"'', s = ''english''\<rparr>]
     = ''Shortcut,Expansion,Language\<newline>"A1","Hello, ""World""","english"\<newline>''\<close>
  by (simp add: exportCSV_csv_def csv_row_def replace_quotes_def replace_newlines_def)

text \<open>
  C4. The delimited-text export is the header line and one line per record, keyword,
  expansion, category, each enclosed in double quotes with its double quotes doubled,
  the line feeds of the expansion turned into spaces, every line ended by one line
  feed. The code doubles the double quotes of the keyword and of the expansion and
  writes the category as it is: for the category \<open>x"y\<close> the row ends with \<open>"x"y"\<close>,
  where the format asks for \<open>"x""y"\<close>.
\<close>

theorem exportCSV_category_not_escaped:
  \<open>exportCSV_csv [\<lparr>k = ''A1'', e = ''Hello'', s = ''x"y''\<rparr>]
     = ''Shortcut,Expansion,Language\<newline>"A1","Hello","x"y"\<newline>''
   \<and> spec_toDelimitedText [\<lparr>k = ''A1'', e = ''Hello'', s = ''x"y''\<rparr>]
     = ''Shortcut,Expansion,Language\<newline>"A1","Hello","x""y"\<newline>''\<close>
  by (simp add: exportCSV_csv_def csv_row_def spec_toDelimitedText_def spec_csv_line_def
      spec_quoted_field_def replace_quotes_def replace_newlines_def)

text \<open>
  C5. On an empty sequence the delimited-text export is exactly the header line and
  the structured-text export is the empty array \<open>[]\<close>; both handlers run to their end
  (a download and a toast), and no branch of either fails.
\<close>

theorem export_empty:
  \<open>exportCSV_csv [] = ''Shortcut,Expansion,Language\<newline>''
   \<and> JSON_stringify [] = ''[]''
   \<and> exportCSV [] =
        [Download ''gboard_shortcuts.csv'' ''text/csv;charset=utf-8;''
           ''Shortcut,Expansion,Language\<newline>'',
         ShowToast ''CSV Exported Successfully'' Success]
   \<and> exportJSON [] =
        [Download ''gboard_shortcuts.json'' ''application/json'' ''[]'',
         ShowToast ''JSON Exported Successfully'' Success]\<close>
  by (simp add: exportCSV_csv_def JSON_stringify_def SerializeJSONArray_def exportCSV_def
      exportJSON_def)

lemma SerializeJSONObject_own_properties:
  \<open>SerializeJSONObject ''  '' (own_properties r) =
     ''{\<newline>    "k": '' @ QuoteJSONString (k r) @
     '',\<newline>    "e": '' @ QuoteJSONString (e r) @
     '',\<newline>    "s": '' @ QuoteJSONString (s r) @ ''\<newline>  }''\<close>
  by (simp add: SerializeJSONObject_def own_properties_def Let_def QuoteJSONString_def
      json_escape_def)

text \<open>
  C2, as amended. For every record sequence, the structured-text export is the JSON
  text of a sequence of objects (\<open>[]\<close> when there is none) in which each object has
  exactly the three fields \<open>k\<close>, \<open>e\<close> and \<open>s\<close>, the attribute names of the in-memory
  record, holding the keyword, the expansion and the category as JSON strings.
\<close>

theorem exportJSON_field_names:
  \<open>exportJSON data =
     [Download ''gboard_shortcuts.json'' ''application/json'' (JSON_stringify data),
      ShowToast ''JSON Exported Successfully'' Success]
   \<and> JSON_stringify data =
     (if data = [] then ''[]''
      else ''[\<newline>  '' @
           Array_join '',\<newline>  ''
             (map (\<lambda>r. ''{\<newline>    "k": '' @ QuoteJSONString (k r) @
                        '',\<newline>    "e": '' @ QuoteJSONString (e r) @
                        '',\<newline>    "s": '' @ QuoteJSONString (s r) @ ''\<newline>  }'') data)
           @ ''\<newline>]'')
   \<and> list_all (\<lambda>r. map fst (own_properties r) = [''k'', ''e'', ''s'']) data\<close>
proof (intro conjI)
  show \<open>exportJSON data =
     [Download ''gboard_shortcuts.json'' ''application/json'' (JSON_stringify data),
      ShowToast ''JSON Exported Successfully'' Success]\<close>
    by (simp add: exportJSON_def)
next
  have "map (SerializeJSONObject ''  '') (map own_properties data)
      = map (\<lambda>r. SerializeJSONObject ''  '' (own_properties r)) data"
    by simp
  then show \<open>JSON_stringify data =
     (if data = [] then ''[]''
      else ''[\<newline>  '' @
           Array_join '',\<newline>  ''
             (map (\<lambda>r. ''{\<newline>    "k": '' @ QuoteJSONString (k r) @
                        '',\<newline>    "e": '' @ QuoteJSONString (e r) @
                        '',\<newline>    "s": '' @ QuoteJSONString (s r) @ ''\<newline>  }'') data)
           @ ''\<newline>]'')\<close>
    by (simp add: JSON_stringify_def SerializeJSONArray_def Let_def
        SerializeJSONObject_own_properties del: map_map)
next
  show "list_all (\<lambda>r. map fst (own_properties r) = [''k'', ''e'', ''s'']) data"
    by (simp add: own_properties_def list_all_iff)
qed

theorem exportJSON_field_names_witness:
  \<open>JSON_stringify [\<lparr>k = ''A1'', e = ''Hello, "World"'', s = ''english''\<rparr>,
                    \<lparr>k = ''gm'', e = ''Good morning'', s = ''all''\<rparr>]
   = ''[\<newline>  {\<newline>    "k": "A1",\<newline>    "e": "Hello, '' @ [CHR 0x5C] @ ''"World'' @ [CHR 0x5C] @ ''"",\<newline>    "s": "english"\<newline>  },\<newline>  {\<newline>    "k": "gm",\<newline>    "e": "Good morning",\<newline>    "s": "all"\<newline>  }\<newline>]''\<close>
proof -
  have q: \<open>QuoteJSONString ''A1'' = ''"A1"''\<close>
          \<open>QuoteJSONString ''Hello, "World"'' = ''"Hello, '' @ [CHR 0x5C] @ ''"World'' @ [CHR 0x5C] @ ''""''\<close>
          \<open>QuoteJSONString ''english'' = ''"english"''\<close>
          \<open>QuoteJSONString ''gm'' = ''"gm"''\<close>
          \<open>QuoteJSONString ''Good morning'' = ''"Good morning"''\<close>
          \<open>QuoteJSONString ''all'' = ''"all"''\<close>
    by code_simp+
  show ?thesis
    using exportJSON_field_names[of "[\<lparr>k = ''A1'', e = ''Hello, \"World\"'', s = ''english''\<rparr>,
                    \<lparr>k = ''gm'', e = ''Good morning'', s = ''all''\<rparr>]"]
    by (simp add: q)
qed

text \<open>
  C2 as the specification states it fails on any record: the object written has the
  field names \<open>k\<close>, \<open>e\<close>, \<open>s\<close>, not \<open>keyword\<close>, \<open>expansion\<close>, \<open>category\<close>.
\<close>

theorem exportJSON_field_names_counterexample:
  \<open>JSON_stringify [\<lparr>k = ''A1'', e = ''Hello'', s = ''english''\<rparr>]
     = ''[\<newline>  {\<newline>    "k": "A1",\<newline>    "e": "Hello",\<newline>    "s": "english"\<newline>  }\<newline>]''
   \<and> spec_toStructuredText [\<lparr>k = ''A1'', e = ''Hello'', s = ''english''\<rparr>]
     = ''[\<newline>  {\<newline>    "keyword": "A1",\<newline>    "expansion": "Hello",\<newline>    "category": "english"\<newline>  }\<newline>]''
   \<and> map fst (own_properties \<lparr>k = ''A1'', e = ''Hello'', s = ''english''\<rparr>)
     \<noteq> [''keyword'', ''expansion'', ''category'']\<close>
  by code_simp

section \<open>Properties of the clipboard bridge\<close>

lemma Array_join_Cons: "Array_join sep (x # xs) = x @ concat (map (\<lambda>y. sep @ y) xs)"
  by (induction sep "x # xs" arbitrary: x xs rule: Array_join.induct) simp_all

lemma Array_join_newline: "Array_join [CHR 0x0A] xs = spec_newline_joined xs"
  by (cases xs) (simp_all add: Array_join_Cons)

text \<open>The digits that \<open>Number_toString\<close> writes read back as the number.\<close>

lemma Number_toString_value:
  "foldl (\<lambda>acc c. 10 * acc + (of_char c - 48)) 0 (Number_toString n) = n"
proof (induction n rule: Number_toString.induct)
  case (1 n)
  show ?case
  proof (cases "n < 10")
    case True
    then show ?thesis by (simp add: Number_toString.simps[of n])
  next
    case False
    with 1 have "foldl (\<lambda>acc c. 10 * acc + (of_char c - 48)) 0 (Number_toString (n div 10)) = n div 10"
      by simp
    moreover have "(of_char (char_of (48 + n mod 10)) :: nat) = 48 + n mod 10"
      by simp
    ultimately show ?thesis using False
      by (simp add: Number_toString.simps[of n])
  qed
qed

text \<open>
  The effects of bulk copy, in full, for every filtered sequence and each behaviour of
  the host. The notification with the count is raised as soon as the write is
  requested, whatever becomes of the write.
\<close>

lemma copyVisible_trace:
  \<open>copyVisible [] result = Inr [ShowToast ''Nothing to copy'' Info]
   \<and> (data \<noteq> [] \<longrightarrow>
        copyVisible data Fulfilled =
          Inr [ClipboardWrite (spec_newline_joined (map e data)),
               ShowToast (''Copied '' @ Number_toString (length data) @ '' items!'') Success,
               ShowToast ''Copied to clipboard!'' Success]
      \<and> copyVisible data Rejected =
          Inr [ClipboardWrite (spec_newline_joined (map e data)),
               ShowToast (''Copied '' @ Number_toString (length data) @ '' items!'') Success,
               ShowToast ''Failed to copy'' Error]
      \<and> copyVisible data Unsupported = Inl TypeError)\<close>
  by (simp add: copyVisible_def copyToClipboard_request_def copyToClipboard_settled_def
      Array_join_newline[simplified])

text \<open>
  The single copy of a row, the sibling of bulk copy: its success notification is
  raised in the \<open>then\<close> callback, so only when the write has succeeded.
\<close>

lemma copyToClipboard_rejected:
  "copyToClipboard text id' Rejected = Inr [ClipboardWrite text, ShowToast ''Failed to copy'' Error]"
  by (simp add: copyToClipboard_def copyToClipboard_request_def copyToClipboard_settled_def)

text \<open>
  C3. Bulk copy of an empty filtered sequence raises exactly one informational
  notification and writes nothing to the clipboard; bulk copy of a non-empty one
  writes the expansions, joined by single line feeds with none after the last, and
  raises a success notification reporting the count when the write succeeds, an error
  notification when it fails. The code does not tie the success notification to the
  success of the write. For two records and a write that is refused it raises
  \<open>Copied 2 items!\<close> as a success and then \<open>Failed to copy\<close> as an error, where the
  claim has the error notification alone; and on a host without a clipboard it ends
  with a \<open>TypeError\<close> and raises no notification at all.
\<close>

theorem copyVisible_success_toast_on_failure:
  \<open>copyVisible [\<lparr>k = ''hl'', e = ''hola amigo'', s = ''spanish''\<rparr>,
                 \<lparr>k = ''gm'', e = ''good morning'', s = ''english''\<rparr>] Rejected
     = Inr [ClipboardWrite ''hola amigo\<newline>good morning'',
            ShowToast ''Copied 2 items!'' Success,
            ShowToast ''Failed to copy'' Error]
   \<and> spec_copyBulk [''hola amigo'', ''good morning''] Rejected
     = [ClipboardWrite ''hola amigo\<newline>good morning'',
        ShowToast ''Failed to copy'' Error]
   \<and> copyVisible [\<lparr>k = ''hl'', e = ''hola amigo'', s = ''spanish''\<rparr>,
                 \<lparr>k = ''gm'', e = ''good morning'', s = ''english''\<rparr>] Unsupported
     = Inl TypeError
   \<and> spec_copyBulk [''hola amigo'', ''good morning''] Unsupported
     = [ShowToast ''Failed to copy'' Error]\<close>
proof -
  have n: "Number_toString (Suc (Suc 0)) = ''2''" by code_simp
  show ?thesis
    by (simp add: copyVisible_def spec_copyBulk_def copyToClipboard_request_def
        copyToClipboard_settled_def n)
qed

text \<open>
  On an empty sequence the code does what the specification words. On a non-empty one
  whose write succeeds it does the same and then adds the success notification of
  \<open>copyToClipboard\<close>.
\<close>

lemma copyVisible_spec_agree:
  \<open>copyVisible [] result = Inr (spec_copyBulk [] result)
   \<and> (data \<noteq> [] \<longrightarrow>
        copyVisible data Fulfilled
          = Inr (spec_copyBulk (map e data) Fulfilled @ [ShowToast ''Copied to clipboard!'' Success]))\<close>
  by (simp add: copyVisible_def spec_copyBulk_def copyToClipboard_request_def
      copyToClipboard_settled_def)

section \<open>Properties of the query state\<close>

lemma totalPages_itemsPerPage:
  "\<exists>pages. totalPages xs itemsPerPage = Some pages \<and> 0 \<le> pages
      \<and> int (length xs) \<le> pages * itemsPerPage"
proof -
  have pos: "0 < itemsPerPage" by (simp add: itemsPerPage_def)
  then obtain pages where p: "totalPages xs itemsPerPage = Some pages"
    by (auto simp: totalPages_def)
  from totalPages_covers[OF pos p] p show ?thesis by blast
qed

lemma totalPages_nonempty:
  assumes "xs \<noteq> []" "totalPages xs itemsPerPage = Some pages"
  shows "1 \<le> pages"
proof -
  have pos: "0 < itemsPerPage" by (simp add: itemsPerPage_def)
  from totalPages_covers[OF pos assms(2)] have "int (length xs) \<le> pages * itemsPerPage" by simp
  moreover from assms(1) have "0 < int (length xs)" by simp
  ultimately have "0 < pages * itemsPerPage" by linarith
  with pos have "0 < pages" by (simp add: zero_less_mult_iff)
  then show ?thesis by simp
qed

lemma totalPages_controls:
  assumes "paginationControls xs itemsPerPage" "totalPages xs itemsPerPage = Some pages"
  shows "2 \<le> pages"
proof -
  have pos: "0 < itemsPerPage" by (simp add: itemsPerPage_def)
  from totalPages_covers[OF pos assms(2)] have "int (length xs) \<le> pages * itemsPerPage" by simp
  moreover from assms(1) have "itemsPerPage < int (length xs)" by (simp add: paginationControls_def)
  ultimately have "1 * itemsPerPage < pages * itemsPerPage" by linarith
  with pos have "1 < pages" by (simp only: mult_less_cancel_right)
  then show ?thesis by simp
qed

lemma filtered_of_currentPage [simp]:
  "filtered_of toLowerCase catalog (st\<lparr>currentPage := p\<rparr>) = filtered_of toLowerCase catalog st"
  by (simp add: filtered_of_def)

lemma dispatch_changes_filter:
  assumes "changes_filter a st"
  shows "currentPage (dispatch toLowerCase catalog st a) = 1"
  using assms by (cases a) (simp_all add: dispatch_def resetPageEffect_def)

lemma dispatch_no_change:
  assumes "\<not> changes_filter a st"
  shows "filtered_of toLowerCase catalog (dispatch toLowerCase catalog st a) = filtered_of toLowerCase catalog st"
  using assms
  by (cases a)
     (auto simp: dispatch_def resetPageEffect_def filtered_of_def Let_def split: option.splits)

text \<open>
  The invariant holds at the start and every action keeps it: a change of tab or of
  search text ends with page 1; the previous-page button stops at 1; the next-page
  button exists only while there are at least two pages and stops at the last.
\<close>

lemma page_in_range_dispatch:
  assumes "page_in_range toLowerCase catalog st"
  shows "page_in_range toLowerCase catalog (dispatch toLowerCase catalog st a)"
proof (cases "changes_filter a st")
  case True
  then show ?thesis by (simp add: page_in_range_def dispatch_changes_filter)
next
  case False
  note same = dispatch_no_change[OF False, of toLowerCase catalog]
  obtain pages where p: "totalPages (filtered_of toLowerCase catalog st) itemsPerPage = Some pages"
    using totalPages_itemsPerPage by blast
  show ?thesis
  proof (cases a)
    case (SetSearchTerm v)
    with False have "dispatch toLowerCase catalog st a = st" by (simp add: dispatch_def resetPageEffect_def)
    with assms show ?thesis by simp
  next
    case (SetActiveTab t)
    with False have "dispatch toLowerCase catalog st a = st" by (simp add: dispatch_def resetPageEffect_def)
    with assms show ?thesis by simp
  next
    case PrevPage
    then have d: "dispatch toLowerCase catalog st a =
        (if paginationControls (filtered_of toLowerCase catalog st) itemsPerPage \<and> currentPage st \<noteq> 1
         then st\<lparr>currentPage := max 1 (currentPage st - 1)\<rparr> else st)"
      by (simp add: dispatch_def resetPageEffect_def filtered_of_def Let_def)
    show ?thesis
    proof (cases "paginationControls (filtered_of toLowerCase catalog st) itemsPerPage \<and> currentPage st \<noteq> 1")
      case True
      with assms p have "1 \<le> currentPage st" "currentPage st \<le> pages"
        by (auto simp: page_in_range_def spec_page_in_range_def)
      with True p show ?thesis
        unfolding d by (auto simp: page_in_range_def spec_page_in_range_def)
    next
      case False
      with assms show ?thesis unfolding d by auto
    qed
  next
    case NextPage
    then have d: "dispatch toLowerCase catalog st a =
        (if paginationControls (filtered_of toLowerCase catalog st) itemsPerPage \<and> currentPage st \<noteq> pages
         then st\<lparr>currentPage := min pages (currentPage st + 1)\<rparr> else st)"
      using p by (simp add: dispatch_def resetPageEffect_def filtered_of_def Let_def)
    show ?thesis
    proof (cases "paginationControls (filtered_of toLowerCase catalog st) itemsPerPage \<and> currentPage st \<noteq> pages")
      case True
      then have "2 \<le> pages" using totalPages_controls p by blast
      moreover from assms p have "1 \<le> currentPage st"
        by (auto simp: page_in_range_def spec_page_in_range_def)
      ultimately show ?thesis
        using True p unfolding d by (auto simp: page_in_range_def spec_page_in_range_def)
    next
      case False
      with assms show ?thesis unfolding d by auto
    qed
  qed
qed

lemma page_in_range_foldl:
  "page_in_range toLowerCase catalog st \<Longrightarrow> page_in_range toLowerCase catalog (foldl (dispatch toLowerCase catalog) st actions)"
  by (induction actions arbitrary: st) (simp_all add: page_in_range_dispatch)

lemma page_in_range_run: "page_in_range toLowerCase catalog (run toLowerCase catalog actions)"
  unfolding run_def
  by (rule page_in_range_foldl) (simp add: page_in_range_def initialState_def)

lemma page_in_range_nonempty:
  assumes "page_in_range toLowerCase catalog st" "filtered_of toLowerCase catalog st \<noteq> []"
  shows "spec_page_in_range toLowerCase catalog st"
proof -
  obtain pages where p: "totalPages (filtered_of toLowerCase catalog st) itemsPerPage = Some pages"
    using totalPages_itemsPerPage by blast
  with assms(2) have "1 \<le> pages" using totalPages_nonempty by blast
  with assms(1) p show ?thesis
    by (auto simp: page_in_range_def spec_page_in_range_def)
qed

lemma renders_after_last:
  "last (renders_after toLowerCase catalog st a) = page_of toLowerCase catalog (dispatch toLowerCase catalog st a)"
  by (simp add: renders_after_def dispatch_def Let_def)

text \<open>
  Once the reset effect has run: a change of the category filter or of the search text
  leaves the current page at 1, and the last render after the change shows page 1 of
  the new filtered result. In every state the application settles in, the page number
  is at least 1 and, when the filtered result is not empty, it lies within
  \<open>[1, totalPages]\<close> of that result.
\<close>

lemma page_settles_in_range:
  "(changes_filter a st \<longrightarrow>
      currentPage (dispatch toLowerCase catalog st a) = 1 \<and>
      last (renders_after toLowerCase catalog st a)
        = paginatedData (filtered_of toLowerCase catalog (dispatch toLowerCase catalog st a)) 1 itemsPerPage)
   \<and> 1 \<le> currentPage (run toLowerCase catalog actions)
   \<and> (filtered_of toLowerCase catalog (run toLowerCase catalog actions) \<noteq> [] \<longrightarrow> spec_page_in_range toLowerCase catalog (run toLowerCase catalog actions))"
proof (intro conjI impI)
  assume c: "changes_filter a st"
  then show "currentPage (dispatch toLowerCase catalog st a) = 1" by (rule dispatch_changes_filter)
  then show "last (renders_after toLowerCase catalog st a)
        = paginatedData (filtered_of toLowerCase catalog (dispatch toLowerCase catalog st a)) 1 itemsPerPage"
    by (simp add: renders_after_last page_of_def)
next
  have "page_in_range toLowerCase catalog (run toLowerCase catalog actions)" by (rule page_in_range_run)
  then show "1 \<le> currentPage (run toLowerCase catalog actions)"
    by (auto simp: page_in_range_def spec_page_in_range_def split: option.splits)
next
  assume "filtered_of toLowerCase catalog (run toLowerCase catalog actions) \<noteq> []"
  with page_in_range_run show "spec_page_in_range toLowerCase catalog (run toLowerCase catalog actions)"
    by (rule page_in_range_nonempty)
qed

text \<open>
  A search text that matches nothing gives a filtered result with 0 pages, and the page
  number settles at 1.
\<close>

lemma empty_result_page_one:
  "filtered_of ascii_toLowerCase [\<lparr>k = ''hl'', e = ''hola amigo'', s = ''spanish''\<rparr>]
        (dispatch ascii_toLowerCase [\<lparr>k = ''hl'', e = ''hola amigo'', s = ''spanish''\<rparr>]
           initialState (SetSearchTerm ''zzz'')) = []
   \<and> currentPage
        (dispatch ascii_toLowerCase [\<lparr>k = ''hl'', e = ''hola amigo'', s = ''spanish''\<rparr>]
           initialState (SetSearchTerm ''zzz'')) = 1
   \<and> totalPages
        (filtered_of ascii_toLowerCase [\<lparr>k = ''hl'', e = ''hola amigo'', s = ''spanish''\<rparr>]
          (dispatch ascii_toLowerCase [\<lparr>k = ''hl'', e = ''hola amigo'', s = ''spanish''\<rparr>]
             initialState (SetSearchTerm ''zzz''))) itemsPerPage = Some 0"
  (is "?empty \<and> ?one \<and> ?pages")
proof -
  have e: ?empty by code_simp
  have o: ?one by code_simp
  have p: ?pages unfolding e by (simp add: totalPages_def itemsPerPage_def)
  from e o p show ?thesis by blast
qed

lemma filter_replicate_if:
  "filter P (replicate n x) = (if P x then replicate n x else [])"
  by (induction n) simp_all

text \<open>
  C9. Whenever the category filter or the search text changes, the current page is
  reset to 1 before the next paginate call, so that the page number always lies within
  \<open>[1, totalPages]\<close> of the current filtered result and never refers to a stale page
  of a larger prior result. The code resets the page in an effect, and the effect runs
  after the render that follows the change: that render paginates the new result with
  the page number of before. With 151 records, 150 of them Spanish, the next-page
  button leads to page 2. The search text \<open>morning\<close> then changes the filter and leaves
  one record, so one page. The render that follows paginates it at page 2, outside
  \<open>[1, 1]\<close>, and shows no record, where page 1 holds the record; only the render after
  the effect shows it.
\<close>

theorem stale_page_paginated:
  "run ascii_toLowerCase
     (replicate 150 \<lparr>k = ''hl'', e = ''hola amigo'', s = ''spanish''\<rparr> @
      [\<lparr>k = ''gm'', e = ''good morning'', s = ''english''\<rparr>]) [NextPage]
     = \<lparr>searchTerm = [], activeTab = TabAll, currentPage = 2\<rparr>
   \<and> changes_filter (SetSearchTerm ''morning'')
        \<lparr>searchTerm = [], activeTab = TabAll, currentPage = 2\<rparr>
   \<and> filtered_of ascii_toLowerCase
        (replicate 150 \<lparr>k = ''hl'', e = ''hola amigo'', s = ''spanish''\<rparr> @
         [\<lparr>k = ''gm'', e = ''good morning'', s = ''english''\<rparr>])
        \<lparr>searchTerm = ''morning'', activeTab = TabAll, currentPage = 2\<rparr>
     = [\<lparr>k = ''gm'', e = ''good morning'', s = ''english''\<rparr>]
   \<and> totalPages [\<lparr>k = ''gm'', e = ''good morning'', s = ''english''\<rparr>] itemsPerPage = Some 1
   \<and> \<not> spec_page_in_range ascii_toLowerCase
        (replicate 150 \<lparr>k = ''hl'', e = ''hola amigo'', s = ''spanish''\<rparr> @
         [\<lparr>k = ''gm'', e = ''good morning'', s = ''english''\<rparr>])
        \<lparr>searchTerm = ''morning'', activeTab = TabAll, currentPage = 2\<rparr>
   \<and> renders_after ascii_toLowerCase
        (replicate 150 \<lparr>k = ''hl'', e = ''hola amigo'', s = ''spanish''\<rparr> @
         [\<lparr>k = ''gm'', e = ''good morning'', s = ''english''\<rparr>])
        \<lparr>searchTerm = [], activeTab = TabAll, currentPage = 2\<rparr> (SetSearchTerm ''morning'')
     = [[], [\<lparr>k = ''gm'', e = ''good morning'', s = ''english''\<rparr>]]
   \<and> paginatedData [\<lparr>k = ''gm'', e = ''good morning'', s = ''english''\<rparr>] 1 itemsPerPage
     = [\<lparr>k = ''gm'', e = ''good morning'', s = ''english''\<rparr>]"
proof -
  define r1 where "r1 = \<lparr>k = ''hl'', e = ''hola amigo'', s = ''spanish''\<rparr>"
  define r2 where "r2 = \<lparr>k = ''gm'', e = ''good morning'', s = ''english''\<rparr>"
  define catalog where "catalog = replicate 150 r1 @ [r2]"
  define st where "st = \<lparr>searchTerm = [], activeTab = TabAll, currentPage = 2\<rparr>"
  define st1 where "st1 = \<lparr>searchTerm = ''morning'', activeTab = TabAll, currentPage = 2\<rparr>"
  have m: "\<not> String_includes (ascii_toLowerCase (k r1)) (ascii_toLowerCase ''morning'')"
          "\<not> String_includes (ascii_toLowerCase (e r1)) (ascii_toLowerCase ''morning'')"
          "String_includes (ascii_toLowerCase (e r2)) (ascii_toLowerCase ''morning'')"
    unfolding r1_def r2_def by code_simp+
  have len: "length catalog = 151" by (simp add: catalog_def)
  have all: "filteredData ascii_toLowerCase catalog TabAll [] = catalog"
    by (simp add: filteredData_def)
  have one: "filteredData ascii_toLowerCase catalog TabAll ''morning'' = [r2]"
    by (simp add: filteredData_def catalog_def filter_replicate_if m)
  have pages: "totalPages catalog itemsPerPage = Some 2"
    by (simp add: totalPages_def itemsPerPage_def len)
  have controls: "paginationControls catalog itemsPerPage"
    by (simp add: paginationControls_def itemsPerPage_def len)
  have next_page: "run ascii_toLowerCase catalog [NextPage] = st"
    by (simp add: st_def run_def dispatch_def resetPageEffect_def initialState_def all pages
        controls)
  have changes: "changes_filter (SetSearchTerm ''morning'') st"
    by (simp add: st_def)
  have filtered: "filtered_of ascii_toLowerCase catalog st1 = [r2]"
    by (simp add: st1_def filtered_of_def one)
  have one_page: "totalPages [r2] itemsPerPage = Some 1"
    by (simp add: totalPages_def itemsPerPage_def ceiling_eq_iff)
  have out: "\<not> spec_page_in_range ascii_toLowerCase catalog st1"
    unfolding spec_page_in_range_def filtered one_page by (simp add: st1_def)
  have stale: "paginatedData [r2] 2 itemsPerPage = []"
    by (simp add: paginatedData_def Array_slice_def itemsPerPage_def)
  have fresh: "paginatedData [r2] 1 itemsPerPage = [r2]"
    by (simp add: paginatedData_def Array_slice_def itemsPerPage_def)
  have renders: "renders_after ascii_toLowerCase catalog st (SetSearchTerm ''morning'')
        = [[], [r2]]"
    by (simp add: st_def renders_after_def resetPageEffect_def page_of_def filtered_of_def
        Let_def one stale fresh)
  from next_page changes filtered one_page out renders fresh
  show ?thesis unfolding catalog_def r1_def r2_def st_def st1_def by blast
qed

end
